theory Spec2Isabelle
  imports
    Complex_Main
    "HOL-Library.Multiset"
    "HOL-Library.Sublist"
    "HOL-Library.Char_ord"
    "HOL-Library.List_Lexorder"
begin

section \<open>Lattice-parameter sweep for simple cubic Cu: the two scripts\<close>

text \<open>
  The repository holds two Python scripts, \<^verbatim>\<open>calculations/generate_files.py\<close> (writes
  one Quantum ESPRESSO input file per lattice parameter) and
  \<^verbatim>\<open>calculations/analyze_results.py\<close> (reads the total energies back, fits a polynomial
  and writes a pgfplots picture).  Both are straight-line scripts over module-level
  variables; each is embedded as a function from what it reads to what it prints and
  writes.

  Numbers.  The scripts compute with IEEE binary64 floats.  Here a float is the rational
  number it denotes and every arithmetic operation is exact: rounding, overflow,
  infinities and NaN are outside the model.  Text is a list of 8-bit characters; the two
  non-ASCII characters the scripts print are given by their UTF-8 bytes.
\<close>

subsection \<open>Decimal text of numbers\<close>

datatype error = ValueError | FileNotFoundError

definition digit_char :: "int \<Rightarrow> char" where
  "digit_char d = ''0123456789'' ! nat d"

text \<open>\<^verbatim>\<open>\d\<close> on ASCII text.\<close>

definition is_digit :: "char \<Rightarrow> bool" where
  "is_digit c = (c \<in> set ''0123456789'')"

definition digit_val :: "char \<Rightarrow> int" where
  "digit_val c = of_char c - 48"

text \<open>The decimal numeral of a non-negative integer, without leading zeros
  (\<open>str(n)\<close>).\<close>

function dec_digits :: "int \<Rightarrow> string" where
  "dec_digits n =
     (if n < 10 then [digit_char n] else dec_digits (n div 10) @ [digit_char (n mod 10)])"
  by pat_completeness auto
termination
  by (relation "measure nat") auto

declare dec_digits.simps [simp del]

text \<open>The last \<open>p\<close> decimal digits of \<open>n\<close>, zero padded on the left.\<close>

fun frac_digits :: "nat \<Rightarrow> int \<Rightarrow> string" where
  "frac_digits 0 n = []"
| "frac_digits (Suc p) n = frac_digits p (n div 10) @ [digit_char (n mod 10)]"

text \<open>Rounding to the nearest integer, ties to the even one: the rule of Python's
  float formatting.\<close>

definition round_half_even :: "rat \<Rightarrow> int" where
  "round_half_even x =
     (let f = \<lfloor>x\<rfloor>; r = x - of_int f
      in if r < 1 / 2 then f
         else if 1 / 2 < r then f + 1
         else if even f then f else f + 1)"

text \<open>
  \<open>format_f p x\<close> is \<^verbatim>\<open>format(x, '.pf')\<close>: sign, integer part, and for \<open>p > 0\<close> a
  point and exactly \<open>p\<close> digits.  A negative value keeps its sign even when all printed
  digits are zero, as Python's does.
\<close>

definition format_f :: "nat \<Rightarrow> rat \<Rightarrow> string" where
  "format_f p x =
     (let n = round_half_even (\<bar>x\<bar> * 10 ^ p)
      in (if x < 0 then ''-'' else []) @ dec_digits (n div 10 ^ p) @
         (if p = 0 then [] else ''.'' @ frac_digits p (n mod 10 ^ p)))"

text \<open>The value \<open>x\<close> rounded to \<open>p\<close> decimal places.\<close>

definition round_dec :: "nat \<Rightarrow> rat \<Rightarrow> rat" where
  "round_dec p x = of_int (round_half_even (x * 10 ^ p)) / 10 ^ p"

text \<open>The value of a string of decimal digits, read left to right.\<close>

definition digits_val :: "string \<Rightarrow> int" where
  "digits_val ds = foldl (\<lambda>acc c. 10 * acc + digit_val c) 0 ds"

text \<open>
  \<open>py_float s\<close> is \<^verbatim>\<open>float(s)\<close> for the strings the scripts pass to it, which consist of
  digits, points and minus signs only (they are the text captured by a character class of
  a regular expression): an optional sign, then digits with at most one point and at
  least one digit.  Anything else of that alphabet raises \<open>ValueError\<close>.  The value is
  the decimal number itself (Python returns the float nearest to it).
\<close>

definition py_float :: "string \<Rightarrow> error + rat" where
  "py_float s =
     (let signed = (s \<noteq> [] \<and> (hd s = CHR ''-'' \<or> hd s = CHR ''+''));
          sign = (if s \<noteq> [] \<and> hd s = CHR ''-'' then - 1 else 1);
          body = (if signed then tl s else s);
          ip = takeWhile is_digit body;
          rest = dropWhile is_digit body
      in case rest of
           [] \<Rightarrow> if ip = [] then Inl ValueError else Inr (sign * of_int (digits_val ip))
         | c # fp \<Rightarrow>
             if c = CHR ''.'' \<and> list_all is_digit fp \<and> (ip \<noteq> [] \<or> fp \<noteq> [])
             then Inr (sign * (of_int (digits_val ip) + of_int (digits_val fp) / 10 ^ length fp))
             else Inl ValueError)"

subsection \<open>numpy operations the scripts call\<close>

text \<open>
  \<^verbatim>\<open>np.linspace(start, stop, num)\<close>: \<open>num\<close> points, the \<open>i\<close>-th at
  \<open>i * step + start\<close> with \<open>step = (stop - start) / (num - 1)\<close>, and the last one set to
  \<open>stop\<close> itself.
\<close>

definition linspace :: "rat \<Rightarrow> rat \<Rightarrow> nat \<Rightarrow> rat list" where
  "linspace start stop num =
     (if num = 0 then []
      else if num = 1 then [start]
      else (let step = (stop - start) / of_nat (num - 1)
            in map (\<lambda>i. of_nat i * step + start) [0..<num - 1] @ [stop]))"

subsection \<open>generate_files.py\<close>

definition ANG_TO_BOHR :: rat where
  "ANG_TO_BOHR = 188972687777 / 100000000000"

definition lattice_params_ang :: "rat list" where
  "lattice_params_ang = linspace (22 / 10) (29 / 10) 12"

definition unlines :: "string list \<Rightarrow> string" where
  "unlines ls = concat (map (\<lambda>l. l @ ''\<newline>'') ls)"

definition quoted :: "string \<Rightarrow> string" where
  "quoted s = [CHR 0x27] @ s @ [CHR 0x27]"

text \<open>
  \<open>input_text a_ang a_bohr\<close> is \<^verbatim>\<open>input_template.format(a_ang=a_ang, a_bohr=a_bohr)\<close>:
  the template has two replacement fields, \<^verbatim>\<open>{a_ang:.3f}\<close> in the prefix line and
  \<^verbatim>\<open>{a_bohr:.8f}\<close> in the \<^verbatim>\<open>celldm(1)\<close> line; every other character is fixed.
\<close>

definition input_text :: "rat \<Rightarrow> rat \<Rightarrow> string" where
  "input_text a_ang a_bohr = unlines
     [''&CONTROL'',
      ''  calculation = '' @ quoted ''scf'',
      ''  prefix = '' @ quoted (''cu_sc_a'' @ format_f 3 a_ang),
      ''  outdir = '' @ quoted ''./tmp'',
      ''  pseudo_dir = '' @ quoted ''./pseudo'',
      ''  verbosity = '' @ quoted ''high'',
      ''/'',
      [],
      ''&SYSTEM'',
      ''  ibrav = 1'',
      ''  celldm(1) = '' @ format_f 8 a_bohr,
      ''  nat = 1'',
      ''  ntyp = 1'',
      ''  ecutwfc = 21.46'',
      ''  occupations = '' @ quoted ''smearing'',
      ''  smearing = '' @ quoted ''mv'',
      ''  degauss = 0.02'',
      ''  input_dft = '' @ quoted ''PW91'',
      ''/'',
      [],
      ''&ELECTRONS'',
      ''  conv_thr = 1.0d-8'',
      ''  mixing_beta = 0.7'',
      ''/'',
      [],
      ''ATOMIC_SPECIES'',
      ''  Cu  63.546  Cu.pw91-n-van_ak.UPF'',
      [],
      ''ATOMIC_POSITIONS crystal'',
      ''  Cu  0.0  0.0  0.0'',
      [],
      ''K_POINTS automatic'',
      ''  12 12 12  0 0 0'']"

definition input_filename :: "rat \<Rightarrow> string" where
  "input_filename a_ang = ''calculations/cu_a'' @ format_f 3 a_ang @ ''.in''"

definition output_filename :: "rat \<Rightarrow> string" where
  "output_filename a_ang = ''calculations/cu_a'' @ format_f 3 a_ang @ ''.out''"

text \<open>The letter A with ring above, as the two bytes of its UTF-8 encoding.\<close>

definition angstrom :: string where
  "angstrom = [CHR 0xC3, CHR 0x85]"

text \<open>
  What a run of the generator leaves behind: the regular files it wrote (path to
  content; a later write to the same path replaces the earlier one) and the lines it
  printed.  The directory \<^verbatim>\<open>calculations\<close> that the script creates first is taken
  to be there and writable.
\<close>

record gen_state =
  written :: "string \<rightharpoonup> string"
  printed :: "string list"

text \<open>One iteration of the loop \<^verbatim>\<open>for i, a_ang in enumerate(lattice_params_ang)\<close>.\<close>

definition generate_one :: "rat \<Rightarrow> gen_state \<Rightarrow> gen_state" where
  "generate_one a_ang st =
     (let a_bohr = a_ang * ANG_TO_BOHR;
          input_txt = input_text a_ang a_bohr
      in \<lparr>written = (written st)(input_filename a_ang \<mapsto> input_txt),
          printed = printed st @
            [''Created input file: '' @ input_filename a_ang,
             ''  Lattice parameter: '' @ format_f 3 a_ang @ '' '' @ angstrom @
               '' ('' @ format_f 6 a_bohr @ '' Bohr)'']\<rparr>)"

fun generate_loop :: "rat list \<Rightarrow> gen_state \<Rightarrow> gen_state" where
  "generate_loop [] st = st"
| "generate_loop (a_ang # rest) st = generate_loop rest (generate_one a_ang st)"

definition generate_files :: gen_state where
  "generate_files =
     (let st = generate_loop lattice_params_ang \<lparr>written = Map.empty, printed = []\<rparr>
      in st\<lparr>printed := printed st @
           [''\<newline>Generated '' @ dec_digits (int (length lattice_params_ang)) @
              '' input files in '' @ quoted ''calculations/'' @ '' directory'',
            ''\<newline>To run calculations, use:'',
            ''  pw.x < calculations/cu_aX.XXX.in > calculations/cu_aX.XXX.out'',
            ''\<newline>Or uncomment the subprocess.run line in the script'']\<rparr>)"

subsection \<open>Lines of a text\<close>

text \<open>\<open>split_on c s\<close> cuts \<open>s\<close> at every \<open>c\<close>, as \<^verbatim>\<open>s.split(c)\<close> does; the lines of a
  text are \<open>split_on\<close> at the newline character.\<close>

fun split_on :: "char \<Rightarrow> string \<Rightarrow> string list" where
  "split_on c [] = [[]]"
| "split_on c (x # xs) =
     (let r = split_on c xs in if x = c then [] # r else (x # hd r) # tl r)"

definition text_lines :: "string \<Rightarrow> string list" where
  "text_lines s = split_on (CHR 0x0A) s"

subsection \<open>Regular expressions of the analysis script\<close>

text \<open>
  Both patterns of \<^verbatim>\<open>analyze_results.py\<close> are sequences of literal characters and of
  character classes under \<^verbatim>\<open>+\<close>, one of them captured as group 1.  \<open>re_match_here\<close>
  is the backtracking matcher of Python's \<^verbatim>\<open>re\<close> on this fragment: a \<^verbatim>\<open>+\<close> first takes
  the longest run of its class and gives characters back one at a time (\<open>re_repeat\<close>)
  until the rest of the pattern matches.  \<open>re_search\<close> tries the start positions from
  the left and returns group 1 of the first match, or \<open>None\<close>.
\<close>

datatype atom = Chr char | Plus "char \<Rightarrow> bool" | GroupPlus "char \<Rightarrow> bool"

definition lits :: "string \<Rightarrow> atom list" where
  "lits s = map Chr s"

fun re_match_here :: "atom list \<Rightarrow> string \<Rightarrow> string \<Rightarrow> string option"
  and re_repeat :: "atom list \<Rightarrow> string \<Rightarrow> string \<Rightarrow> bool \<Rightarrow> nat \<Rightarrow> string option" where
  "re_match_here [] s g = Some g"
| "re_match_here (Chr c # p) s g =
     (case s of [] \<Rightarrow> None | x # t \<Rightarrow> if x = c then re_match_here p t g else None)"
| "re_match_here (Plus cls # p) s g = re_repeat p s g False (length (takeWhile cls s))"
| "re_match_here (GroupPlus cls # p) s g = re_repeat p s g True (length (takeWhile cls s))"
| "re_repeat p s g capture 0 = None"
| "re_repeat p s g capture (Suc k) =
     (case re_match_here p (drop (Suc k) s) (if capture then take (Suc k) s else g) of
        Some r \<Rightarrow> Some r
      | None \<Rightarrow> re_repeat p s g capture k)"

fun re_search :: "atom list \<Rightarrow> string \<Rightarrow> string option" where
  "re_search p [] = re_match_here p [] []"
| "re_search p (x # t) =
     (case re_match_here p (x # t) [] of Some g \<Rightarrow> Some g | None \<Rightarrow> re_search p t)"

text \<open>\<^verbatim>\<open>\s\<close> on ASCII text: tab, line feed, vertical tab, form feed, carriage return,
  the four separators 0x1C to 0x1F, and the space.\<close>

definition is_space :: "char \<Rightarrow> bool" where
  "is_space c = (c \<in> set [CHR 0x09, CHR 0x0A, CHR 0x0B, CHR 0x0C, CHR 0x0D,
                            CHR 0x1C, CHR 0x1D, CHR 0x1E, CHR 0x1F, CHR '' ''])"

text \<open>\<^verbatim>\<open>cu_a([\d.]+)\.out\<close>\<close>

definition filename_re :: "atom list" where
  "filename_re =
     lits ''cu_a'' @ [GroupPlus (\<lambda>c. is_digit c \<or> c = CHR ''.'')] @ lits ''.out''"

text \<open>\<^verbatim>\<open>!\s+total energy\s+=\s+([-\d.]+)\s+Ry\<close>\<close>

definition energy_re :: "atom list" where
  "energy_re =
     [Chr CHR ''!'', Plus is_space] @ lits ''total energy'' @
     [Plus is_space, Chr CHR ''='', Plus is_space,
      GroupPlus (\<lambda>c. c = CHR ''-'' \<or> is_digit c \<or> c = CHR ''.''), Plus is_space] @
     lits ''Ry''"

subsection \<open>analyze_results.py: reading the energies\<close>

text \<open>
  The files the script can see: paths with their contents, in the order in which the
  operating system lists them (which \<^verbatim>\<open>glob.glob\<close> passes on).  Paths are relative to
  the working directory, as the script writes them, and every entry is a readable text
  file.  A file system holds one file per path; where that matters a theorem assumes the
  paths distinct.
\<close>

type_synonym filesystem = "(string \<times> string) list"

text \<open>\<^verbatim>\<open>glob.glob('calculations/cu_a*.out')\<close>: the entries of directory
  \<^verbatim>\<open>calculations\<close> whose name starts with \<^verbatim>\<open>cu_a\<close> and ends with \<^verbatim>\<open>.out\<close>.\<close>

definition glob_match :: "string \<Rightarrow> bool" where
  "glob_match path =
     (prefix ''calculations/'' path \<and>
      (let name = drop 13 path
       in CHR ''/'' \<notin> set name \<and> prefix ''cu_a'' name \<and> suffix ''.out'' name \<and>
          8 \<le> length name))"

definition glob_output_files :: "filesystem \<Rightarrow> string list" where
  "glob_output_files fs = filter glob_match (map fst fs)"

text \<open>\<open>extract_energy\<close> opens the file, reads all of it and searches the whole content
  once; \<^verbatim>\<open>float\<close> of the captured text may raise.\<close>

definition extract_energy :: "(string \<rightharpoonup> string) \<Rightarrow> string \<Rightarrow> error + rat option" where
  "extract_energy files filename =
     (case files filename of
        None \<Rightarrow> Inl FileNotFoundError
      | Some content \<Rightarrow>
          (case re_search energy_re content of
             None \<Rightarrow> Inr None
           | Some g \<Rightarrow> (case py_float g of Inl e \<Rightarrow> Inl e | Inr x \<Rightarrow> Inr (Some x))))"

definition RY_TO_EV :: rat where
  "RY_TO_EV = 13605693122994 / 1000000000000"

record collected =
  lattice_params :: "rat list"
  energies :: "rat list"
  stdout :: "string list"

text \<open>The line printed for a file that gave an energy (in eV).\<close>

definition data_line :: "rat \<Rightarrow> rat \<Rightarrow> string" where
  "data_line a_ang e_ev =
     ''a = '' @ format_f 3 a_ang @ '' '' @ angstrom @ '': E = '' @ format_f 6 e_ev @ '' eV''"

text \<open>The body of \<^verbatim>\<open>for filename in output_files\<close>.  Nothing is appended or printed
  before the two calls that can raise have returned.\<close>

definition process_file :: "(string \<rightharpoonup> string) \<Rightarrow> string \<Rightarrow> collected \<Rightarrow> error + collected" where
  "process_file files filename st =
     (case re_search filename_re filename of
        None \<Rightarrow> Inr st
      | Some g \<Rightarrow>
          (case py_float g of
             Inl e \<Rightarrow> Inl e
           | Inr a_ang \<Rightarrow>
               (case extract_energy files filename of
                  Inl e \<Rightarrow> Inl e
                | Inr None \<Rightarrow> Inr st
                | Inr (Some energy) \<Rightarrow>
                    Inr \<lparr>lattice_params = lattice_params st @ [a_ang],
                         energies = energies st @ [energy * RY_TO_EV],
                         stdout = stdout st @ [data_line a_ang (energy * RY_TO_EV)]\<rparr>)))"

text \<open>The loop; an exception ends it, with the state reached so far.\<close>

fun collect_loop ::
  "(string \<rightharpoonup> string) \<Rightarrow> string list \<Rightarrow> collected \<Rightarrow> (error \<times> collected) + collected" where
  "collect_loop files [] st = Inr st"
| "collect_loop files (filename # rest) st =
     (case process_file files filename st of
        Inl e \<Rightarrow> Inl (e, st)
      | Inr st' \<Rightarrow> collect_loop files rest st')"

definition collect :: "filesystem \<Rightarrow> (error \<times> collected) + collected" where
  "collect fs =
     collect_loop (map_of fs) (sort (glob_output_files fs))
       \<lparr>lattice_params = [], energies = [], stdout = []\<rparr>"

subsection \<open>analyze_results.py: sorting, fit and minimum\<close>

text \<open>
  \<^verbatim>\<open>np.argsort\<close> returns the indices that sort its argument.  numpy's default sort does
  not promise an order among equal keys; the model takes the stable one.  No property
  below depends on that choice except that it is a fixed one.  \<open>take_idx\<close> is indexing
  an array by an index array; the indices \<open>argsort\<close> returns are always in range
  (lemma \<open>mset_argsort\<close>).
\<close>

definition argsort :: "rat list \<Rightarrow> nat list" where
  "argsort xs = sort_key (\<lambda>i. xs ! i) [0..<length xs]"

definition take_idx :: "'a list \<Rightarrow> nat list \<Rightarrow> 'a list" where
  "take_idx xs idx = map (\<lambda>i. xs ! i) idx"

definition sort_step :: "rat list \<Rightarrow> rat list \<Rightarrow> rat list \<times> rat list" where
  "sort_step ps es = (let sort_idx = argsort ps in (take_idx ps sort_idx, take_idx es sort_idx))"

text \<open>\<^verbatim>\<open>np.poly1d(coeffs)(x)\<close>: Horner's rule, highest power first.\<close>

definition polyval :: "rat list \<Rightarrow> rat \<Rightarrow> rat" where
  "polyval cs x = foldl (\<lambda>y c. y * x + c) 0 cs"

text \<open>Minimum, maximum and \<^verbatim>\<open>np.argmin\<close> (the first index of the smallest entry); each
  raises on an empty array.\<close>

definition array_min :: "rat list \<Rightarrow> error + rat" where
  "array_min xs = (case xs of [] \<Rightarrow> Inl ValueError | x # t \<Rightarrow> Inr (fold min t x))"

definition array_max :: "rat list \<Rightarrow> error + rat" where
  "array_max xs = (case xs of [] \<Rightarrow> Inl ValueError | x # t \<Rightarrow> Inr (fold max t x))"

fun argmin_loop :: "rat list \<Rightarrow> nat \<Rightarrow> nat \<Rightarrow> rat \<Rightarrow> nat" where
  "argmin_loop [] i best_i best = best_i"
| "argmin_loop (x # xs) i best_i best =
     (if x < best then argmin_loop xs (Suc i) i x else argmin_loop xs (Suc i) best_i best)"

definition argmin :: "rat list \<Rightarrow> error + nat" where
  "argmin xs = (case xs of [] \<Rightarrow> Inl ValueError | x # t \<Rightarrow> Inr (argmin_loop t 1 0 x))"

text \<open>
  \<^verbatim>\<open>np.polyfit\<close> is numpy's least-squares routine, not code of this repository: it is a
  parameter \<open>polyfit\<close> of the model, called as the script calls it (abscissae, ordinates,
  degree) and returning the coefficients, highest power first.
\<close>

type_synonym polyfit = "rat list \<Rightarrow> rat list \<Rightarrow> nat \<Rightarrow> rat list"

record fit =
  coeffs :: "rat list"
  a_fine :: "rat list"
  e_fine :: "rat list"
  a_eq :: rat
  e_min :: rat

definition fit_minimum :: "polyfit \<Rightarrow> rat list \<Rightarrow> rat list \<Rightarrow> error + fit" where
  "fit_minimum polyfit ps es =
     (let cs = polyfit ps es 4
      in case array_min ps of Inl e \<Rightarrow> Inl e | Inr lo \<Rightarrow>
         case array_max ps of Inl e \<Rightarrow> Inl e | Inr hi \<Rightarrow>
           (let grid = linspace lo hi 1000;
                vals = map (polyval cs) grid
            in case argmin vals of Inl e \<Rightarrow> Inl e | Inr min_idx \<Rightarrow>
                 Inr \<lparr>coeffs = cs, a_fine = grid, e_fine = vals,
                      a_eq = grid ! min_idx, e_min = vals ! min_idx\<rparr>))"

subsection \<open>analyze_results.py: the pgfplots picture\<close>

definition bs :: string where
  "bs = [CHR 0x5C]"

definition coord_line :: "rat \<Rightarrow> rat \<Rightarrow> string" where
  "coord_line x y = ''    ('' @ format_f 6 x @ '', '' @ format_f 6 y @ '')\<newline>''"

definition tikz_points_head :: string where
  "tikz_points_head = unlines
     [bs @ ''begin{tikzpicture}'',
      bs @ ''begin{axis}['',
      ''    width=12cm,'',
      ''    height=8cm,'',
      ''    xlabel={Lattice Parameter ('' @ bs @ ''AA)},'',
      ''    ylabel={Total Energy (eV/atom)},'',
      ''    title={Energy vs Lattice Parameter for Simple Cubic Cu},'',
      ''    grid=major,'',
      ''    grid style={dashed, gray!30},'',
      ''    legend pos=north east,'',
      ''    legend style={font='' @ bs @ ''small},'',
      ''    tick label style={font='' @ bs @ ''small},'',
      ''    label style={font='' @ bs @ ''footnotesize},'',
      ''    title style={font='' @ bs @ ''bfseries}'',
      '']'',
      [],
      ''% Calculated points'',
      bs @ ''addplot['',
      ''    only marks,'',
      ''    mark=*,'',
      ''    mark size=2.5pt,'',
      ''    color=blue,'',
      ''] coordinates {'']"

definition tikz_fit_head :: string where
  "tikz_fit_head = unlines
     [''};'',
      bs @ ''addlegendentry{Calculated points}'',
      [],
      ''% Polynomial fit'',
      bs @ ''addplot['',
      ''    color=red,'',
      ''    line width=1.2pt,'',
      ''    smooth,'',
      ''] coordinates {'']"

definition tikz_vline_head :: string where
  "tikz_vline_head = unlines
     [''};'',
      bs @ ''addlegendentry{4th order polynomial fit}'',
      [],
      ''% Vertical line at minimum'',
      bs @ ''addplot['',
      ''    color=green!70!black,'',
      ''    dashed,'',
      ''    line width=1pt,'',
      ''] coordinates {'']"

definition tikz_tail :: "rat \<Rightarrow> string" where
  "tikz_tail a =
     ''};\<newline>'' @ bs @ ''addlegendentry{Minimum at $a='' @ format_f 4 a @ ''$ '' @ bs @
     ''AA}\<newline>\<newline>'' @ bs @ ''end{axis}\<newline>'' @ bs @ ''end{tikzpicture}''"

text \<open>\<^verbatim>\<open>np.linspace(start, stop, num, dtype=int)\<close>: the points of \<open>linspace\<close>, each
  rounded down to an integer.\<close>

definition linspace_int :: "nat \<Rightarrow> nat \<Rightarrow> nat \<Rightarrow> nat list" where
  "linspace_int start stop num = map (\<lambda>x. nat \<lfloor>x\<rfloor>) (linspace (of_nat start) (of_nat stop) num)"

text \<open>The text the script accumulates in \<^verbatim>\<open>tikz_code\<close>, by the same sequence of
  \<^verbatim>\<open>+=\<close>: the two loops are folds over the zipped data and over the index array.\<close>

definition tikz_code :: "rat list \<Rightarrow> rat list \<Rightarrow> fit \<Rightarrow> error + string" where
  "tikz_code ps es f =
     (let t1 = foldl (\<lambda>t (a, e). t @ coord_line a e) tikz_points_head (zip ps es);
          t2 = t1 @ tikz_fit_head;
          subsample = 100;
          indices = linspace_int 0 (length (a_fine f) - 1) subsample;
          t3 = foldl (\<lambda>t idx. t @ coord_line (a_fine f ! idx) (e_fine f ! idx)) t2 indices;
          t4 = t3 @ tikz_vline_head
      in case array_min es of Inl e \<Rightarrow> Inl e | Inr y_min \<Rightarrow>
         case array_max es of Inl e \<Rightarrow> Inl e | Inr y_max \<Rightarrow>
           (let y_range = y_max - y_min;
                y_bottom = y_min - 1 / 10 * y_range;
                y_top = y_max + 1 / 10 * y_range;
                t5 = t4 @ coord_line (a_eq f) y_bottom;
                t6 = t5 @ coord_line (a_eq f) y_top
            in Inr (t6 @ tikz_tail (a_eq f))))"

subsection \<open>analyze_results.py: the whole run\<close>

text \<open>How a run ends (\<open>Exit\<close> with the process status, or an exception nobody catches),
  what it printed, and the files it wrote.\<close>

datatype status = Exit nat | Uncaught error

record outcome =
  out_printed :: "string list"
  out_status :: status
  out_written :: "(string \<times> string) list"

definition report_lines :: "fit \<Rightarrow> string list" where
  "report_lines f =
     [''\<newline>'' @ replicate 50 CHR ''='',
      ''Equilibrium lattice parameter: '' @ format_f 4 (a_eq f) @ '' '' @ angstrom,
      ''Minimum energy: '' @ format_f 6 (e_min f) @ '' eV/atom'',
      replicate 50 CHR ''='']"

definition closing_lines :: "string list" where
  "closing_lines =
     [''\<newline>TikZ plot saved as '' @ quoted ''lattice_optimization.tex'',
      ''\<newline>To use this in LaTeX, include the following in your preamble:'',
      ''  '' @ bs @ ''usepackage{pgfplots}'',
      ''  '' @ bs @ ''pgfplotsset{compat=1.18}'',
      ''\<newline>Then include the file with: '' @ bs @ ''input{lattice_optimization.tex}'']"

definition analyze_results :: "polyfit \<Rightarrow> filesystem \<Rightarrow> outcome" where
  "analyze_results polyfit fs =
     (case collect fs of
        Inl (e, st) \<Rightarrow> \<lparr>out_printed = stdout st, out_status = Uncaught e, out_written = []\<rparr>
      | Inr st \<Rightarrow>
          if length (energies st) = 0
          then \<lparr>out_printed = stdout st @
                   [''No energies extracted. Check that calculations have completed.''],
                out_status = Exit 1, out_written = []\<rparr>
          else (case sort_step (lattice_params st) (energies st) of (ps, es) \<Rightarrow>
                 (case fit_minimum polyfit ps es of
                    Inl e \<Rightarrow> \<lparr>out_printed = stdout st, out_status = Uncaught e,
                              out_written = []\<rparr>
                  | Inr f \<Rightarrow>
                      (case tikz_code ps es f of
                         Inl e \<Rightarrow> \<lparr>out_printed = stdout st @ report_lines f,
                                   out_status = Uncaught e, out_written = []\<rparr>
                       | Inr tikz \<Rightarrow>
                           \<lparr>out_printed = stdout st @ report_lines f @ closing_lines,
                            out_status = Exit 0,
                            out_written = [(''../assets/lattice_optimization.tex'', tikz)]\<rparr>))))"

section \<open>Properties\<close>

lemma length_linspace: "length (linspace a b n) = n"
  by (simp add: linspace_def)

subsection \<open>Digits and decimal text\<close>

lemma digit_cases:
  "0 \<le> d \<Longrightarrow> d < (10::int) \<Longrightarrow> d \<in> {0, 1, 2, 3, 4, 5, 6, 7, 8, 9}"
  by simp presburger

lemma is_digit_digit_char: "0 \<le> d \<Longrightarrow> d < 10 \<Longrightarrow> is_digit (digit_char d)"
  using digit_cases [of d] by (auto simp: is_digit_def digit_char_def)

lemma digit_val_digit_char: "0 \<le> d \<Longrightarrow> d < 10 \<Longrightarrow> digit_val (digit_char d) = d"
  using digit_cases [of d] by (auto simp: digit_val_def digit_char_def)

lemma dec_digits_all_digits: "0 \<le> n \<Longrightarrow> list_all is_digit (dec_digits n)"
proof (induction n rule: dec_digits.induct)
  case (1 n)
  show ?case
  proof (cases "n < 10")
    case True
    with 1 show ?thesis by (simp add: dec_digits.simps [of n] is_digit_digit_char)
  next
    case False
    with 1 show ?thesis by (simp add: dec_digits.simps [of n] is_digit_digit_char)
  qed
qed

lemma dec_digits_nonempty: "dec_digits n \<noteq> []"
  by (simp add: dec_digits.simps [of n])

lemma frac_digits_all_digits: "list_all is_digit (frac_digits p n)"
  by (induction p arbitrary: n) (simp_all add: is_digit_digit_char)

lemma length_frac_digits: "length (frac_digits p n) = p"
  by (induction p arbitrary: n) simp_all

lemma digits_val_snoc: "digits_val (ds @ [c]) = 10 * digits_val ds + digit_val c"
  by (simp add: digits_val_def)

lemma digits_val_dec_digits: "0 \<le> n \<Longrightarrow> digits_val (dec_digits n) = n"
proof (induction n rule: dec_digits.induct)
  case (1 n)
  show ?case
  proof (cases "n < 10")
    case True
    with 1 show ?thesis by (simp add: dec_digits.simps [of n] digits_val_def digit_val_digit_char)
  next
    case False
    with 1 show ?thesis
      by (simp add: dec_digits.simps [of n] digits_val_snoc digit_val_digit_char)
  qed
qed

lemma digits_val_frac_digits: "0 \<le> n \<Longrightarrow> digits_val (frac_digits p n) = n mod 10 ^ p"
proof (induction p arbitrary: n)
  case 0
  show ?case by (simp add: digits_val_def)
next
  case (Suc p)
  have "n mod (10 * 10 ^ p) = 10 * (n div 10 mod 10 ^ p) + n mod 10"
    by (rule zmod_zmult2_eq) simp
  with Suc show ?case by (simp add: digits_val_snoc digit_val_digit_char)
qed

subsection \<open>Lines\<close>

lemma split_on_append: "c \<notin> set l \<Longrightarrow> split_on c (l @ c # rest) = l # split_on c rest"
  by (induction l) (auto simp: Let_def)

lemma text_lines_unlines:
  "\<forall>l\<in>set ls. CHR 0x0A \<notin> set l \<Longrightarrow> text_lines (unlines ls) = ls @ [[]]"
  unfolding text_lines_def by (induction ls) (simp_all add: unlines_def split_on_append)

subsection \<open>Characters of a formatted number\<close>

lemma round_half_even_nonneg: "0 \<le> x \<Longrightarrow> 0 \<le> round_half_even x"
  by (auto simp: round_half_even_def Let_def)

lemma set_format_f:
  "set (format_f p x) \<subseteq> insert CHR ''-'' (insert CHR ''.'' (Collect is_digit))"
proof -
  have "0 \<le> round_half_even (\<bar>x\<bar> * 10 ^ p)"
    by (rule round_half_even_nonneg) simp
  then have "list_all is_digit (dec_digits (round_half_even (\<bar>x\<bar> * 10 ^ p) div 10 ^ p))"
    by (intro dec_digits_all_digits) (simp add: pos_imp_zdiv_nonneg_iff)
  with frac_digits_all_digits show ?thesis
    by (auto simp: format_f_def Let_def list_all_iff)
qed

lemma newline_notin_format_f: "CHR 0x0A \<notin> set (format_f p x)"
  using set_format_f [of p x] by (auto simp: is_digit_def)

subsection \<open>The generator\<close>

lemma written_generate_loop_other:
  "path \<notin> input_filename ` set as \<Longrightarrow> written (generate_loop as st) path = written st path"
  by (induction as arbitrary: st) (auto simp: generate_one_def Let_def)

lemma written_generate_loop_mem:
  "distinct (map input_filename as) \<Longrightarrow> a \<in> set as \<Longrightarrow>
   written (generate_loop as st) (input_filename a) = Some (input_text a (a * ANG_TO_BOHR))"
proof (induction as arbitrary: st)
  case Nil
  then show ?case by simp
next
  case (Cons b as)
  show ?case
  proof (cases "a = b")
    case True
    with Cons.prems have "input_filename a \<notin> input_filename ` set as" by auto
    then show ?thesis
      using True by (simp add: written_generate_loop_other generate_one_def Let_def)
  next
    case False
    with Cons show ?thesis by simp
  qed
qed

lemma dom_written_generate_loop:
  "dom (written (generate_loop as st)) = dom (written st) \<union> input_filename ` set as"
  by (induction as arbitrary: st) (auto simp: generate_one_def Let_def)

lemma lattice_params_ang_values:
  "lattice_params_ang =
     [11 / 5, 249 / 110, 128 / 55, 263 / 110, 27 / 11, 277 / 110, 142 / 55,
      291 / 110, 149 / 55, 61 / 22, 156 / 55, 29 / 10]"
  by (simp add: lattice_params_ang_def linspace_def upt_rec)

lemma format_f_sweep:
  "map (format_f 3) lattice_params_ang =
     [''2.200'', ''2.264'', ''2.327'', ''2.391'', ''2.455'', ''2.518'',
      ''2.582'', ''2.645'', ''2.709'', ''2.773'', ''2.836'', ''2.900'']"
  by code_simp

lemma input_filename_sweep:
  "map input_filename lattice_params_ang =
     [''calculations/cu_a2.200.in'', ''calculations/cu_a2.264.in'',
      ''calculations/cu_a2.327.in'', ''calculations/cu_a2.391.in'',
      ''calculations/cu_a2.455.in'', ''calculations/cu_a2.518.in'',
      ''calculations/cu_a2.582.in'', ''calculations/cu_a2.645.in'',
      ''calculations/cu_a2.709.in'', ''calculations/cu_a2.773.in'',
      ''calculations/cu_a2.836.in'', ''calculations/cu_a2.900.in'']"
proof -
  have "map input_filename lattice_params_ang =
        map (\<lambda>s. ''calculations/cu_a'' @ s @ ''.in'') (map (format_f 3) lattice_params_ang)"
    by (simp add: input_filename_def)
  then show ?thesis
    unfolding format_f_sweep by simp
qed

lemma distinct_input_filenames: "distinct (map input_filename lattice_params_ang)"
  unfolding input_filename_sweep by simp

lemma written_generate_files:
  "written generate_files =
     written (generate_loop lattice_params_ang \<lparr>written = Map.empty, printed = []\<rparr>)"
  by (simp add: generate_files_def Let_def)

lemma generate_files_lookup:
  "a \<in> set lattice_params_ang \<Longrightarrow>
   written generate_files (input_filename a) = Some (input_text a (a * ANG_TO_BOHR))"
  unfolding written_generate_files
  by (rule written_generate_loop_mem [OF distinct_input_filenames])

lemma dom_generate_files:
  "dom (written generate_files) = input_filename ` set lattice_params_ang"
  unfolding written_generate_files by (simp add: dom_written_generate_loop)



lemma text_lines_input_text:
  "text_lines (input_text a b) ! 10 = ''  celldm(1) = '' @ format_f 8 b \<and>
   filter (prefix ''  celldm(1)'') (text_lines (input_text a b)) =
     [''  celldm(1) = '' @ format_f 8 b]"
  unfolding input_text_def
  by (subst text_lines_unlines; simp add: newline_notin_format_f quoted_def)+

text \<open>
  Claim C6.  In every file the generator wrote, the \<^verbatim>\<open>celldm(1)\<close> field is the lattice
  parameter in Angstrom times 1.88972687777, printed with 8 decimal places: the file
  belongs to a sweep value \<open>a\<close>, and its only line starting with \<^verbatim>\<open>celldm(1)\<close> (after
  the indentation) is \<^verbatim>\<open>celldm(1) = \<close> followed by \<open>format_f 8 (a * ANG_TO_BOHR)\<close>.
\<close>

theorem celldm_field_is_bohr:
  assumes "written generate_files path = Some content"
  shows "\<exists>a\<in>set lattice_params_ang.
           path = input_filename a \<and>
           content = input_text a (a * ANG_TO_BOHR) \<and>
           filter (prefix ''  celldm(1)'') (text_lines content) =
             [''  celldm(1) = '' @ format_f 8 (a * ANG_TO_BOHR)]"
proof -
  from assms have "path \<in> dom (written generate_files)"
    by blast
  then obtain a where a: "a \<in> set lattice_params_ang" and path: "path = input_filename a"
    unfolding dom_generate_files by blast
  from generate_files_lookup [OF a] assms path
  have "content = input_text a (a * ANG_TO_BOHR)"
    by simp
  with a path text_lines_input_text [of a "a * ANG_TO_BOHR"] show ?thesis
    by blast
qed

text \<open>For the file of 2.2 the field reads 4.15739913.\<close>

theorem celldm_field_is_bohr_witness:
  "written generate_files ''calculations/cu_a2.200.in'' =
     Some (input_text (11 / 5) (11 / 5 * ANG_TO_BOHR)) \<and>
   (\<exists>a\<in>set lattice_params_ang.
      ''calculations/cu_a2.200.in'' = input_filename a \<and>
      input_text (11 / 5) (11 / 5 * ANG_TO_BOHR) = input_text a (a * ANG_TO_BOHR) \<and>
      filter (prefix ''  celldm(1)'')
        (text_lines (input_text (11 / 5) (11 / 5 * ANG_TO_BOHR))) =
        [''  celldm(1) = '' @ format_f 8 (a * ANG_TO_BOHR)]) \<and>
   format_f 8 (11 / 5 * ANG_TO_BOHR) = ''4.15739913''"
proof -
  have mem: "(11 / 5 :: rat) \<in> set lattice_params_ang"
    by (simp add: lattice_params_ang_values)
  have fmt: "input_filename (11 / 5) = ''calculations/cu_a2.200.in''"
    unfolding input_filename_def by code_simp
  have hyp: "written generate_files ''calculations/cu_a2.200.in'' =
               Some (input_text (11 / 5) (11 / 5 * ANG_TO_BOHR))"
    using generate_files_lookup [OF mem] unfolding fmt .
  have val: "format_f 8 (11 / 5 * ANG_TO_BOHR) = ''4.15739913''"
    by code_simp
  from hyp celldm_field_is_bohr [OF hyp] val show ?thesis
    by blast
qed

subsection \<open>The file name pattern on generated names\<close>

lemma re_repeat_longest:
  assumes "re_match_here p (drop (Suc k) s) (if capture then take (Suc k) s else g) = None"
  shows "re_repeat p s g capture (Suc k) = re_repeat p s g capture k"
  using assms by simp

lemma re_repeat_hit:
  assumes "re_match_here p (drop (Suc k) s) (if capture then take (Suc k) s else g) = Some r"
  shows "re_repeat p s g capture (Suc k) = Some r"
  using assms by simp

lemma re_match_filename_tail:
  assumes "d \<noteq> []" and "\<forall>c\<in>set d. is_digit c \<or> c = CHR ''.''"
  shows "re_match_here ([GroupPlus (\<lambda>c. is_digit c \<or> c = CHR ''.'')] @ lits ''.out'')
           (d @ ''.out'') g = Some d"
proof -
  let ?cls = "\<lambda>c. is_digit c \<or> c = CHR ''.''"
  have o: "\<not> ?cls CHR ''o''"
    by (simp add: is_digit_def)
  have "takeWhile ?cls (d @ ''.out'') = d @ ''.''"
    using assms(2) o by (induction d) auto
  then have len: "length (takeWhile ?cls (d @ ''.out'')) = Suc (length d)"
    by simp
  from assms(1) obtain k where k: "length d = Suc k"
    by (cases d) auto
  have miss: "re_repeat (lits ''.out'') (d @ ''.out'') g True (Suc (length d)) =
              re_repeat (lits ''.out'') (d @ ''.out'') g True (length d)"
    by (rule re_repeat_longest) (simp add: lits_def)
  have hit: "re_repeat (lits ''.out'') (d @ ''.out'') g True (Suc k) = Some d"
    by (rule re_repeat_hit) (simp add: lits_def k [symmetric])
  show ?thesis
    using len miss hit k by simp
qed

lemma re_search_filename:
  assumes "d \<noteq> []" and "\<forall>c\<in>set d. is_digit c \<or> c = CHR ''.''"
  shows "re_search filename_re (''calculations/cu_a'' @ d @ ''.out'') = Some d"
proof -
  have "re_match_here filename_re (''cu_a'' @ d @ ''.out'') [] = Some d"
    using re_match_filename_tail [OF assms, of "[]"]
    by (simp add: filename_re_def lits_def)
  then show ?thesis
    by (simp add: filename_re_def lits_def)
qed


subsection \<open>Reading a formatted number back\<close>

lemma format_f_nonneg:
  assumes "0 \<le> x" and "0 < p"
  shows "format_f p x =
           dec_digits (round_half_even (x * 10 ^ p) div 10 ^ p) @ ''.'' @
           frac_digits p (round_half_even (x * 10 ^ p) mod 10 ^ p)"
  using assms by (simp add: format_f_def Let_def)

lemma py_float_decimal:
  assumes ip: "ip \<noteq> []" "list_all is_digit ip" and fp: "list_all is_digit fp"
  shows "py_float (ip @ ''.'' @ fp) =
           Inr (of_int (digits_val ip) + of_int (digits_val fp) / 10 ^ length fp)"
proof -
  have dot: "\<not> is_digit CHR ''.''"
    by (simp add: is_digit_def)
  from ip obtain c cs where c: "ip = c # cs" "is_digit c"
    by (cases ip) auto
  then have nosign: "c \<noteq> CHR ''-''" "c \<noteq> CHR ''+''"
    by (auto simp: is_digit_def)
  have tw: "takeWhile is_digit (ip @ ''.'' @ fp) = ip"
    using ip(2) dot by (induction ip) auto
  have dw: "dropWhile is_digit (ip @ ''.'' @ fp) = ''.'' @ fp"
    using ip(2) dot by (induction ip) auto
  have "py_float (ip @ ''.'' @ fp) =
          (case dropWhile is_digit (ip @ ''.'' @ fp) of
             [] \<Rightarrow> if takeWhile is_digit (ip @ ''.'' @ fp) = [] then Inl ValueError
                   else Inr (1 * of_int (digits_val (takeWhile is_digit (ip @ ''.'' @ fp))))
           | c # fp' \<Rightarrow>
               if c = CHR ''.'' \<and> list_all is_digit fp' \<and>
                  (takeWhile is_digit (ip @ ''.'' @ fp) \<noteq> [] \<or> fp' \<noteq> [])
               then Inr (1 * (of_int (digits_val (takeWhile is_digit (ip @ ''.'' @ fp))) +
                              of_int (digits_val fp') / 10 ^ length fp'))
               else Inl ValueError)"
    unfolding py_float_def Let_def using c nosign by simp
  then show ?thesis
    unfolding tw dw using ip fp by simp
qed

lemma decimal_value:
  fixes n :: int
  shows "(of_int (n div 10 ^ p) + of_int (n mod 10 ^ p) / 10 ^ p :: rat) = of_int n / 10 ^ p"
proof -
  define q r where "q = n div 10 ^ p" and "r = n mod 10 ^ p"
  have "n = q * 10 ^ p + r"
    unfolding q_def r_def by (rule div_mult_mod_eq [symmetric])
  then have "(of_int n :: rat) = of_int q * 10 ^ p + of_int r"
    by simp
  then have "(of_int n :: rat) / 10 ^ p = of_int q + of_int r / 10 ^ p"
    by (simp add: add_divide_distrib)
  then show ?thesis
    unfolding q_def r_def by simp
qed

lemma py_float_format_f:
  assumes "0 \<le> x" and "0 < p"
  shows "py_float (format_f p x) = Inr (round_dec p x)"
proof -
  define n where "n = round_half_even (x * 10 ^ p)"
  have n: "0 \<le> n"
    unfolding n_def using assms(1) by (intro round_half_even_nonneg) simp
  then have q: "0 \<le> n div 10 ^ p" and r: "0 \<le> n mod 10 ^ p"
    by (simp_all add: pos_imp_zdiv_nonneg_iff)
  have "py_float (format_f p x) =
          Inr (of_int (digits_val (dec_digits (n div 10 ^ p))) +
               of_int (digits_val (frac_digits p (n mod 10 ^ p))) /
                 10 ^ length (frac_digits p (n mod 10 ^ p)))"
    unfolding format_f_nonneg [OF assms] n_def [symmetric]
    by (rule py_float_decimal)
       (simp_all add: dec_digits_nonempty dec_digits_all_digits [OF q] frac_digits_all_digits)
  also have "\<dots> = Inr (of_int (n div 10 ^ p) + of_int (n mod 10 ^ p) / 10 ^ p)"
    unfolding digits_val_dec_digits [OF q] digits_val_frac_digits [OF r] length_frac_digits
    by simp
  also have "\<dots> = Inr (of_int n / 10 ^ p)"
    unfolding decimal_value ..
  finally show ?thesis
    by (simp add: round_dec_def n_def)
qed

lemma format_f_nonneg_class:
  assumes "0 \<le> x" and "0 < p"
  shows "format_f p x \<noteq> [] \<and> (\<forall>c\<in>set (format_f p x). is_digit c \<or> c = CHR ''.'')"
proof -
  define n where "n = round_half_even (x * 10 ^ p)"
  have "0 \<le> n"
    unfolding n_def using assms(1) by (intro round_half_even_nonneg) simp
  then have "0 \<le> n div 10 ^ p"
    by (simp add: pos_imp_zdiv_nonneg_iff)
  then have d1: "\<forall>c\<in>set (dec_digits (n div 10 ^ p)). is_digit c"
    using dec_digits_all_digits by (simp add: list_all_iff)
  have d2: "\<forall>c\<in>set (frac_digits p (n mod 10 ^ p)). is_digit c"
    using frac_digits_all_digits [of p "n mod 10 ^ p"] by (simp add: list_all_iff)
  show ?thesis
    unfolding format_f_nonneg [OF assms] n_def [symmetric]
    using d1 d2 by (auto simp: dec_digits_nonempty)
qed


lemma sweep_nonneg: "a \<in> set lattice_params_ang \<Longrightarrow> 0 \<le> a"
  unfolding lattice_params_ang_values by auto

lemma round_trip_nonneg:
  assumes "0 \<le> a"
  shows "re_search filename_re (output_filename a) = Some (format_f 3 a) \<and>
         py_float (format_f 3 a) = Inr (round_dec 3 a)"
proof -
  have cls: "format_f 3 a \<noteq> [] \<and> (\<forall>c\<in>set (format_f 3 a). is_digit c \<or> c = CHR ''.'')"
    by (rule format_f_nonneg_class [OF assms]) simp
  then have "re_search filename_re (''calculations/cu_a'' @ format_f 3 a @ ''.out'') =
               Some (format_f 3 a)"
    by (intro re_search_filename) simp_all
  moreover have "py_float (format_f 3 a) = Inr (round_dec 3 a)"
    by (rule py_float_format_f [OF assms]) simp
  ultimately show ?thesis
    by (simp add: output_filename_def)
qed

lemma glob_match_generated:
  assumes "d \<noteq> []" and "\<forall>c\<in>set d. is_digit c \<or> c = CHR ''.''"
  shows "glob_match (''calculations/cu_a'' @ d @ ''.out'')"
proof -
  have "CHR ''/'' \<notin> set d"
    using assms(2) by (auto simp: is_digit_def)
  moreover have "suffix ''.out'' (''cu_a'' @ d @ ''.out'')"
    by (intro suffixI [of _ "''cu_a'' @ d"]) simp
  ultimately show ?thesis
    using assms(1) by (simp add: glob_match_def Let_def)
qed

lemma process_generated_file:
  assumes "0 \<le> a" and "extract_energy files (output_filename a) = Inr (Some e)"
  shows "process_file files (output_filename a) st =
           Inr \<lparr>lattice_params = lattice_params st @ [round_dec 3 a],
                energies = energies st @ [e * RY_TO_EV],
                stdout = stdout st @ [data_line (round_dec 3 a) (e * RY_TO_EV)]\<rparr>"
  using round_trip_nonneg [OF assms(1)] assms(2)
  by (simp add: process_file_def)

text \<open>
  Claim C5.  The lattice parameter survives the trip through the file name: for every
  value \<open>a\<close> of the sweep, the analyzer's pattern \<^verbatim>\<open>cu_a([\d.]+)\.out\<close> finds in the
  generator's \<^verbatim>\<open>calculations/cu_a{a:.3f}.out\<close> the text \<^verbatim>\<open>{a:.3f}\<close> as group 1, and
  \<^verbatim>\<open>float\<close> of that text is \<open>a\<close> rounded to 3 decimal places.  The name is one the
  analyzer's \<^verbatim>\<open>glob\<close> picks up, and when the file holds an energy the loop body appends
  exactly that rounded value to the lattice parameters.
\<close>

theorem filename_round_trip:
  assumes "a \<in> set lattice_params_ang"
  shows "glob_match (output_filename a) \<and>
         re_search filename_re (output_filename a) = Some (format_f 3 a) \<and>
         py_float (format_f 3 a) = Inr (round_dec 3 a) \<and>
         (\<forall>files st e.
            extract_energy files (output_filename a) = Inr (Some e) \<longrightarrow>
            process_file files (output_filename a) st =
              Inr \<lparr>lattice_params = lattice_params st @ [round_dec 3 a],
                   energies = energies st @ [e * RY_TO_EV],
                   stdout = stdout st @ [data_line (round_dec 3 a) (e * RY_TO_EV)]\<rparr>)"
proof -
  have a: "0 \<le> a"
    using assms by (rule sweep_nonneg)
  have cls: "format_f 3 a \<noteq> [] \<and> (\<forall>c\<in>set (format_f 3 a). is_digit c \<or> c = CHR ''.'')"
    by (rule format_f_nonneg_class [OF a]) simp
  then have "glob_match (''calculations/cu_a'' @ format_f 3 a @ ''.out'')"
    by (intro glob_match_generated) simp_all
  then have "glob_match (output_filename a)"
    by (simp add: output_filename_def)
  with round_trip_nonneg [OF a] process_generated_file [OF a] show ?thesis
    by blast
qed

text \<open>The second sweep value, 2.2636..., comes back as 2.264.\<close>

theorem filename_round_trip_witness:
  "(249 / 110 :: rat) \<in> set lattice_params_ang \<and>
   output_filename (249 / 110) = ''calculations/cu_a2.264.out'' \<and>
   re_search filename_re ''calculations/cu_a2.264.out'' = Some ''2.264'' \<and>
   py_float ''2.264'' = Inr (2264 / 1000)"
proof -
  have mem: "(249 / 110 :: rat) \<in> set lattice_params_ang"
    by (simp add: lattice_params_ang_values)
  have fmt: "format_f 3 (249 / 110) = ''2.264''"
    by code_simp
  have name: "output_filename (249 / 110) = ''calculations/cu_a2.264.out''"
    unfolding output_filename_def fmt by simp
  have rnd: "round_dec 3 (249 / 110) = 2264 / 1000"
    by code_simp
  from filename_round_trip [OF mem] mem name show ?thesis
    unfolding fmt rnd by simp
qed

subsection \<open>Reading the total energy\<close>






subsection \<open>The sorting step\<close>

lemma zip_as_map_nth:
  "length es = length ps \<Longrightarrow> zip ps es = map (\<lambda>i. (ps ! i, es ! i)) [0..<length ps]"
  by (rule nth_equalityI) simp_all

lemma zip_take_idx:
  "zip (take_idx ps idx) (take_idx es idx) = map (\<lambda>i. (ps ! i, es ! i)) idx"
  by (simp add: take_idx_def zip_map_map zip_same_conv_map)

lemma mset_zip_take_idx:
  assumes "mset idx = mset [0..<length ps]" and "length es = length ps"
  shows "mset (zip (take_idx ps idx) (take_idx es idx)) = mset (zip ps es)"
proof -
  have "mset (zip (take_idx ps idx) (take_idx es idx)) =
          image_mset (\<lambda>i. (ps ! i, es ! i)) (mset idx)"
    by (simp add: zip_take_idx)
  also have "\<dots> = mset (map (\<lambda>i. (ps ! i, es ! i)) [0..<length ps])"
    unfolding assms(1) by simp
  finally show ?thesis
    by (simp only: zip_as_map_nth [OF assms(2)])
qed

lemma mset_argsort: "mset (argsort ps) = mset [0..<length ps]"
  by (simp add: argsort_def)

lemma sorted_take_argsort: "sorted (take_idx ps (argsort ps))"
  by (simp add: take_idx_def argsort_def sorted_sort_key)

lemma set_take_argsort: "set (take_idx ps (argsort ps)) = set ps"
proof -
  have "set (argsort ps) = {0..<length ps}"
    using mset_argsort [of ps] by (metis mset_eq_setD set_upt)
  then have "set (take_idx ps (argsort ps)) = (\<lambda>i. ps ! i) ` {0..<length ps}"
    by (simp add: take_idx_def)
  also have "\<dots> = set ps"
    by (metis map_nth set_map set_upt)
  finally show ?thesis .
qed

lemma length_take_argsort: "length (take_idx xs (argsort ps)) = length ps"
  by (simp add: take_idx_def argsort_def)

text \<open>
  Claim C10.  The sorting step puts the lattice parameters in nondecreasing order and
  applies one and the same permutation of the indices to parameters and energies, so
  the (lattice parameter, energy) pairs after the step are, as a multiset, the pairs
  before it.
\<close>

theorem sort_step_sorted_perm:
  assumes "length es = length ps"
  shows "sorted (fst (sort_step ps es)) \<and>
         mset (zip (fst (sort_step ps es)) (snd (sort_step ps es))) = mset (zip ps es) \<and>
         (\<exists>idx. mset idx = mset [0..<length ps] \<and>
                sort_step ps es = (map (\<lambda>i. ps ! i) idx, map (\<lambda>i. es ! i) idx))"
proof -
  have "sorted (fst (sort_step ps es))"
    by (simp add: sort_step_def Let_def sorted_take_argsort)
  moreover have "mset (zip (fst (sort_step ps es)) (snd (sort_step ps es))) = mset (zip ps es)"
    using mset_zip_take_idx [OF mset_argsort assms] by (simp add: sort_step_def Let_def)
  moreover have "sort_step ps es =
                   (map (\<lambda>i. ps ! i) (argsort ps), map (\<lambda>i. es ! i) (argsort ps))"
    by (simp add: sort_step_def Let_def take_idx_def)
  ultimately show ?thesis
    using mset_argsort [of ps] by blast
qed

text \<open>Three files read in the order 2.6, 2.2, 2.4.\<close>

theorem sort_step_sorted_perm_witness:
  "length [3, 1, 2 :: rat] = length [13 / 5, 11 / 5, 12 / 5 :: rat] \<and>
   sort_step [13 / 5, 11 / 5, 12 / 5] [3, 1, 2] = ([11 / 5, 12 / 5, 13 / 5], [1, 2, 3]) \<and>
   sorted (fst (sort_step [13 / 5, 11 / 5, 12 / 5] [3, 1, 2])) \<and>
   mset (zip (fst (sort_step [13 / 5, 11 / 5, 12 / 5] [3, 1, 2]))
             (snd (sort_step [13 / 5, 11 / 5, 12 / 5] [3, 1, 2]))) =
     mset (zip [13 / 5, 11 / 5, 12 / 5] [3, 1, 2 :: rat])"
proof -
  have len: "length [3, 1, 2 :: rat] = length [13 / 5, 11 / 5, 12 / 5 :: rat]"
    by simp
  have val: "sort_step [13 / 5, 11 / 5, 12 / 5] [3, 1, 2] = ([11 / 5, 12 / 5, 13 / 5], [1, 2, 3])"
    by code_simp
  from sort_step_sorted_perm [OF len] len val show ?thesis
    by blast
qed

subsection \<open>Minimum, maximum and argmin\<close>

lemma array_min_eq:
  assumes "xs \<noteq> []"
  shows "array_min xs = Inr (Min (set xs))"
proof -
  from assms obtain x t where xs: "xs = x # t"
    by (cases xs) auto
  have "array_min (x # t) = Inr (fold min t x)"
    by (simp add: array_min_def)
  then show ?thesis
    unfolding xs Min.set_eq_fold .
qed

lemma array_max_eq:
  assumes "xs \<noteq> []"
  shows "array_max xs = Inr (Max (set xs))"
proof -
  from assms obtain x t where xs: "xs = x # t"
    by (cases xs) auto
  have "array_max (x # t) = Inr (fold max t x)"
    by (simp add: array_max_def)
  then show ?thesis
    unfolding xs Max.set_eq_fold .
qed

lemma argmin_loop_spec:
  assumes "best_i < length pre" and "\<forall>y\<in>set pre. pre ! best_i \<le> y"
  shows "argmin_loop xs (length pre) best_i (pre ! best_i) < length (pre @ xs) \<and>
         (\<forall>y\<in>set (pre @ xs).
            (pre @ xs) ! argmin_loop xs (length pre) best_i (pre ! best_i) \<le> y)"
  using assms
proof (induction xs arbitrary: pre best_i)
  case Nil
  then show ?case by simp
next
  case (Cons x xs)
  show ?case
  proof (cases "x < pre ! best_i")
    case True
    have "length pre < length (pre @ [x])"
      by simp
    moreover have "\<forall>y\<in>set (pre @ [x]). (pre @ [x]) ! length pre \<le> y"
      using True Cons.prems(2) by auto
    ultimately have
      "argmin_loop xs (length (pre @ [x])) (length pre) ((pre @ [x]) ! length pre)
         < length ((pre @ [x]) @ xs) \<and>
       (\<forall>y\<in>set ((pre @ [x]) @ xs).
          ((pre @ [x]) @ xs) !
            argmin_loop xs (length (pre @ [x])) (length pre) ((pre @ [x]) ! length pre) \<le> y)"
      by (rule Cons.IH)
    with True show ?thesis
      by simp
  next
    case False
    have "best_i < length (pre @ [x])"
      using Cons.prems(1) by simp
    moreover have "\<forall>y\<in>set (pre @ [x]). (pre @ [x]) ! best_i \<le> y"
      using False Cons.prems by (auto simp: nth_append)
    ultimately have
      "argmin_loop xs (length (pre @ [x])) best_i ((pre @ [x]) ! best_i)
         < length ((pre @ [x]) @ xs) \<and>
       (\<forall>y\<in>set ((pre @ [x]) @ xs).
          ((pre @ [x]) @ xs) !
            argmin_loop xs (length (pre @ [x])) best_i ((pre @ [x]) ! best_i) \<le> y)"
      by (rule Cons.IH)
    with False Cons.prems(1) show ?thesis
      by (simp add: nth_append)
  qed
qed

lemma argmin_spec:
  assumes "xs \<noteq> []"
  shows "\<exists>i. argmin xs = Inr i \<and> i < length xs \<and> (\<forall>y\<in>set xs. xs ! i \<le> y)"
proof -
  from assms obtain x t where xs: "xs = x # t"
    by (cases xs) auto
  have "argmin_loop t (length [x]) 0 ([x] ! 0) < length ([x] @ t) \<and>
        (\<forall>y\<in>set ([x] @ t). ([x] @ t) ! argmin_loop t (length [x]) 0 ([x] ! 0) \<le> y)"
    by (rule argmin_loop_spec) simp_all
  then show ?thesis
    by (simp add: xs argmin_def)
qed

lemma argmin_loop_first:
  assumes "best_i < length pre" and "\<forall>j<best_i. pre ! best_i < pre ! j"
    and "\<forall>y\<in>set pre. pre ! best_i \<le> y"
  shows "\<forall>j<argmin_loop xs (length pre) best_i (pre ! best_i).
           (pre @ xs) ! argmin_loop xs (length pre) best_i (pre ! best_i) < (pre @ xs) ! j"
  using assms
proof (induction xs arbitrary: pre best_i)
  case Nil
  then show ?case by simp
next
  case (Cons x xs)
  show ?case
  proof (cases "x < pre ! best_i")
    case True
    have "length pre < length (pre @ [x])"
      by simp
    moreover have "\<forall>j<length pre. (pre @ [x]) ! length pre < (pre @ [x]) ! j"
    proof (intro allI impI)
      fix j
      assume j: "j < length pre"
      then have "pre ! best_i \<le> pre ! j"
        using Cons.prems(3) by simp
      with True j show "(pre @ [x]) ! length pre < (pre @ [x]) ! j"
        by (simp add: nth_append)
    qed
    moreover have "\<forall>y\<in>set (pre @ [x]). (pre @ [x]) ! length pre \<le> y"
      using True Cons.prems(3) by auto
    ultimately have
      "\<forall>j<argmin_loop xs (length (pre @ [x])) (length pre) ((pre @ [x]) ! length pre).
         ((pre @ [x]) @ xs) !
           argmin_loop xs (length (pre @ [x])) (length pre) ((pre @ [x]) ! length pre)
         < ((pre @ [x]) @ xs) ! j"
      by (rule Cons.IH)
    with True show ?thesis
      by simp
  next
    case False
    have "best_i < length (pre @ [x])"
      using Cons.prems(1) by simp
    moreover have "\<forall>j<best_i. (pre @ [x]) ! best_i < (pre @ [x]) ! j"
      using Cons.prems(1,2) by (auto simp: nth_append)
    moreover have "\<forall>y\<in>set (pre @ [x]). (pre @ [x]) ! best_i \<le> y"
      using False Cons.prems by (auto simp: nth_append)
    ultimately have
      "\<forall>j<argmin_loop xs (length (pre @ [x])) best_i ((pre @ [x]) ! best_i).
         ((pre @ [x]) @ xs) !
           argmin_loop xs (length (pre @ [x])) best_i ((pre @ [x]) ! best_i)
         < ((pre @ [x]) @ xs) ! j"
      by (rule Cons.IH)
    with False Cons.prems(1) show ?thesis
      by (simp add: nth_append)
  qed
qed

lemma argmin_first:
  assumes "argmin xs = Inr i"
  shows "\<forall>j<i. xs ! i < xs ! j"
proof -
  from assms obtain x t where xs: "xs = x # t"
    by (cases xs) (auto simp: argmin_def)
  have "\<forall>j<argmin_loop t (length [x]) 0 ([x] ! 0).
          ([x] @ t) ! argmin_loop t (length [x]) 0 ([x] ! 0) < ([x] @ t) ! j"
    by (rule argmin_loop_first) simp_all
  with assms show ?thesis
    by (simp add: xs argmin_def)
qed

subsection \<open>The grid\<close>

lemma linspace_point_bounds:
  assumes "lo \<le> hi" and "i < n - 1"
  shows "lo \<le> of_nat i * ((hi - lo) / of_nat (n - 1)) + lo \<and>
         of_nat i * ((hi - lo) / of_nat (n - 1)) + lo \<le> (hi :: rat)"
proof -
  have pos: "(0::rat) < of_nat (n - 1)"
    using assms(2) by simp
  have d: "0 \<le> hi - lo"
    using assms(1) by simp
  have "(of_nat i :: rat) / of_nat (n - 1) \<le> 1"
    using assms(2) pos by (simp add: divide_le_eq)
  then have "(hi - lo) * (of_nat i / of_nat (n - 1)) \<le> (hi - lo) * 1"
    using d by (rule mult_left_mono)
  then have up: "of_nat i * ((hi - lo) / of_nat (n - 1)) \<le> hi - lo"
    by (simp add: mult.commute)
  have "0 \<le> of_nat i * ((hi - lo) / of_nat (n - 1))"
    using d pos by simp
  with up show ?thesis
    by simp
qed

lemma linspace_bounds:
  assumes "lo \<le> hi" and "x \<in> set (linspace lo hi n)"
  shows "lo \<le> x \<and> x \<le> hi"
proof -
  consider "n = 0" | "n = 1" | "2 \<le> n"
    by linarith
  then show ?thesis
  proof cases
    case 1
    with assms(2) show ?thesis
      by (simp add: linspace_def)
  next
    case 2
    with assms show ?thesis
      by (simp add: linspace_def)
  next
    case 3
    then have n: "n \<noteq> 0" "n \<noteq> 1"
      by simp_all
    have "linspace lo hi n =
        map (\<lambda>i. of_nat i * ((hi - lo) / of_nat (n - 1)) + lo) [0..<n - 1] @ [hi]"
      unfolding linspace_def Let_def by (simp only: n if_False)
    with assms(2) consider "x = hi"
      | i where "i < n - 1" "x = of_nat i * ((hi - lo) / of_nat (n - 1)) + lo"
      by auto
    then show ?thesis
    proof cases
      case 1
      with assms(1) show ?thesis by simp
    next
      case 2
      with linspace_point_bounds [OF assms(1) 2(1)] show ?thesis by simp
    qed
  qed
qed

lemma Min_le_Max_list: "xs \<noteq> [] \<Longrightarrow> Min (set xs) \<le> Max (set xs)"
  by simp

subsection \<open>The fit and its minimum\<close>

lemma fit_minimum_spec:
  assumes "ps \<noteq> []"
  shows "\<exists>f i. fit_minimum polyfit ps es = Inr f \<and>
           coeffs f = polyfit ps es 4 \<and>
           a_fine f = linspace (Min (set ps)) (Max (set ps)) 1000 \<and>
           e_fine f = map (polyval (coeffs f)) (a_fine f) \<and>
           i < 1000 \<and> a_eq f = a_fine f ! i \<and> e_min f = e_fine f ! i \<and>
           (\<forall>y\<in>set (e_fine f). e_min f \<le> y) \<and>
           (\<forall>j<i. e_min f < e_fine f ! j)"
proof -
  define cs where "cs = polyfit ps es 4"
  define grid where "grid = linspace (Min (set ps)) (Max (set ps)) 1000"
  define vals where "vals = map (polyval cs) grid"
  have len: "length vals = 1000"
    by (simp add: vals_def grid_def length_linspace)
  then have "vals \<noteq> []"
    by auto
  from argmin_spec [OF this] obtain i where
    i: "argmin vals = Inr i" "i < length vals" "\<forall>y\<in>set vals. vals ! i \<le> y"
    by blast
  have "fit_minimum polyfit ps es =
          Inr \<lparr>coeffs = cs, a_fine = grid, e_fine = vals, a_eq = grid ! i, e_min = vals ! i\<rparr>"
    using assms i(1)
    by (simp add: fit_minimum_def Let_def array_min_eq array_max_eq
        cs_def [symmetric] grid_def [symmetric] vals_def [symmetric])
  with i len argmin_first [OF i(1)] show ?thesis
    unfolding cs_def grid_def vals_def by auto
qed

subsection \<open>What the reading loop collects\<close>

text \<open>Every entry of the collected lists comes from one file: its lattice parameter
  from the file's name, its energy (in Ry, before conversion) from the file's content.\<close>

lemma process_file_cases:
  assumes "process_file files filename st = Inr st'"
  shows "st' = st \<or>
         (\<exists>g a e. re_search filename_re filename = Some g \<and> py_float g = Inr a \<and>
            extract_energy files filename = Inr (Some e) \<and>
            st' = \<lparr>lattice_params = lattice_params st @ [a],
                   energies = energies st @ [e * RY_TO_EV],
                   stdout = stdout st @ [data_line a (e * RY_TO_EV)]\<rparr>)"
  using assms
  by (auto simp: process_file_def split: option.splits sum.splits)

lemma collect_loop_spec:
  assumes "collect_loop files names st = Inr st'"
  shows "\<exists>contrib.
           lattice_params st' = lattice_params st @ map fst contrib \<and>
           energies st' = energies st @ map (\<lambda>(a, e). e * RY_TO_EV) contrib \<and>
           stdout st' = stdout st @ map (\<lambda>(a, e). data_line a (e * RY_TO_EV)) contrib \<and>
           (\<forall>(a, e)\<in>set contrib. \<exists>filename\<in>set names. \<exists>g.
              re_search filename_re filename = Some g \<and> py_float g = Inr a \<and>
              extract_energy files filename = Inr (Some e))"
  using assms
proof (induction names arbitrary: st)
  case Nil
  then show ?case
    by (intro exI [of _ "[]"]) simp
next
  case (Cons filename rest)
  from Cons.prems obtain st1 where
    st1: "process_file files filename st = Inr st1" "collect_loop files rest st1 = Inr st'"
    by (auto split: sum.splits)
  from Cons.IH [OF st1(2)] obtain contrib where contrib:
    "lattice_params st' = lattice_params st1 @ map fst contrib"
    "energies st' = energies st1 @ map (\<lambda>(a, e). e * RY_TO_EV) contrib"
    "stdout st' = stdout st1 @ map (\<lambda>(a, e). data_line a (e * RY_TO_EV)) contrib"
    "\<forall>(a, e)\<in>set contrib. \<exists>filename\<in>set rest. \<exists>g.
        re_search filename_re filename = Some g \<and> py_float g = Inr a \<and>
        extract_energy files filename = Inr (Some e)"
    by blast
  from process_file_cases [OF st1(1)] show ?case
  proof
    assume "st1 = st"
    with contrib show ?thesis
      by (intro exI [of _ contrib]) auto
  next
    assume "\<exists>g a e. re_search filename_re filename = Some g \<and> py_float g = Inr a \<and>
              extract_energy files filename = Inr (Some e) \<and>
              st1 = \<lparr>lattice_params = lattice_params st @ [a],
                     energies = energies st @ [e * RY_TO_EV],
                     stdout = stdout st @ [data_line a (e * RY_TO_EV)]\<rparr>"
    then obtain g a e where new:
      "re_search filename_re filename = Some g" "py_float g = Inr a"
      "extract_energy files filename = Inr (Some e)"
      "st1 = \<lparr>lattice_params = lattice_params st @ [a],
              energies = energies st @ [e * RY_TO_EV],
              stdout = stdout st @ [data_line a (e * RY_TO_EV)]\<rparr>"
      by blast
    with contrib show ?thesis
      by (intro exI [of _ "(a, e) # contrib"]) auto
  qed
qed

lemma collect_spec:
  assumes "collect fs = Inr st"
  shows "\<exists>contrib.
           lattice_params st = map fst contrib \<and>
           energies st = map (\<lambda>(a, e). e * RY_TO_EV) contrib \<and>
           stdout st = map (\<lambda>(a, e). data_line a (e * RY_TO_EV)) contrib \<and>
           (\<forall>(a, e)\<in>set contrib. \<exists>filename\<in>set (glob_output_files fs). \<exists>g.
              re_search filename_re filename = Some g \<and> py_float g = Inr a \<and>
              extract_energy (map_of fs) filename = Inr (Some e))"
  using collect_loop_spec [OF assms [unfolded collect_def]] by simp

lemma collect_lengths:
  assumes "collect fs = Inr st"
  shows "length (lattice_params st) = length (energies st) \<and>
         length (stdout st) = length (energies st)"
  using collect_spec [OF assms] by auto

subsection \<open>A run that reaches the fit\<close>

lemma tikz_code_defined:
  "es \<noteq> [] \<Longrightarrow> \<exists>t. tikz_code ps es f = Inr t"
  by (simp add: tikz_code_def Let_def array_min_eq array_max_eq)

lemma analyze_results_success:
  assumes "collect fs = Inr st" and "energies st \<noteq> []"
  shows "\<exists>f t.
           fit_minimum polyfit (fst (sort_step (lattice_params st) (energies st)))
             (snd (sort_step (lattice_params st) (energies st))) = Inr f \<and>
           tikz_code (fst (sort_step (lattice_params st) (energies st)))
             (snd (sort_step (lattice_params st) (energies st))) f = Inr t \<and>
           analyze_results polyfit fs =
             \<lparr>out_printed = stdout st @ report_lines f @ closing_lines,
              out_status = Exit 0,
              out_written = [(''../assets/lattice_optimization.tex'', t)]\<rparr>"
proof -
  define ps where "ps = fst (sort_step (lattice_params st) (energies st))"
  define es where "es = snd (sort_step (lattice_params st) (energies st))"
  have len: "length (lattice_params st) = length (energies st)"
    using collect_lengths [OF assms(1)] by simp
  have "length ps = length (energies st)" "length es = length (energies st)"
    by (simp_all add: ps_def es_def sort_step_def Let_def length_take_argsort len)
  with assms(2) have ne: "ps \<noteq> []" "es \<noteq> []"
    by auto
  from fit_minimum_spec [OF ne(1), of polyfit es] obtain f where
    f: "fit_minimum polyfit ps es = Inr f"
    by blast
  from tikz_code_defined [OF ne(2), of ps f] obtain t where
    t: "tikz_code ps es f = Inr t"
    by blast
  have split: "sort_step (lattice_params st) (energies st) = (ps, es)"
    by (simp add: ps_def es_def)
  have "analyze_results polyfit fs =
          \<lparr>out_printed = stdout st @ report_lines f @ closing_lines,
           out_status = Exit 0,
           out_written = [(''../assets/lattice_optimization.tex'', t)]\<rparr>"
    using assms f t by (simp add: analyze_results_def split)
  with f t show ?thesis
    unfolding ps_def es_def by blast
qed

lemma sorted_params_set:
  "set (fst (sort_step ps es)) = set ps"
  by (simp add: sort_step_def Let_def set_take_argsort)


lemma run_fit_spec:
  assumes "collect fs = Inr st" and "energies st \<noteq> []"
  defines "ps \<equiv> fst (sort_step (lattice_params st) (energies st))"
    and "es \<equiv> snd (sort_step (lattice_params st) (energies st))"
  shows "\<exists>f t i.
           fit_minimum polyfit ps es = Inr f \<and>
           tikz_code ps es f = Inr t \<and>
           analyze_results polyfit fs =
             \<lparr>out_printed = stdout st @ report_lines f @ closing_lines,
              out_status = Exit 0,
              out_written = [(''../assets/lattice_optimization.tex'', t)]\<rparr> \<and>
           coeffs f = polyfit ps es 4 \<and>
           a_fine f =
             linspace (Min (set (lattice_params st))) (Max (set (lattice_params st))) 1000 \<and>
           e_fine f = map (polyval (coeffs f)) (a_fine f) \<and>
           i < 1000 \<and> a_eq f = a_fine f ! i \<and> e_min f = e_fine f ! i \<and>
           (\<forall>y\<in>set (e_fine f). e_min f \<le> y) \<and>
           (\<forall>j<i. e_min f < e_fine f ! j)"
proof -
  from analyze_results_success [OF assms(1,2), of polyfit] obtain f t where ft:
    "fit_minimum polyfit ps es = Inr f" "tikz_code ps es f = Inr t"
    "analyze_results polyfit fs =
       \<lparr>out_printed = stdout st @ report_lines f @ closing_lines,
        out_status = Exit 0,
        out_written = [(''../assets/lattice_optimization.tex'', t)]\<rparr>"
    unfolding ps_def es_def by blast
  have "lattice_params st \<noteq> []"
    using collect_lengths [OF assms(1)] assms(2) by auto
  then have "ps \<noteq> []"
    using sorted_params_set [of "lattice_params st" "energies st"] unfolding ps_def by auto
  from fit_minimum_spec [OF this, of polyfit es] ft(1) obtain i where
    "coeffs f = polyfit ps es 4"
    "a_fine f = linspace (Min (set ps)) (Max (set ps)) 1000"
    "e_fine f = map (polyval (coeffs f)) (a_fine f)"
    "i < 1000" "a_eq f = a_fine f ! i" "e_min f = e_fine f ! i"
    "\<forall>y\<in>set (e_fine f). e_min f \<le> y"
    "\<forall>j<i. e_min f < e_fine f ! j"
    by auto
  moreover have "set ps = set (lattice_params st)"
    unfolding ps_def by (rule sorted_params_set)
  ultimately show ?thesis
    using ft by auto
qed

text \<open>
  Claim C8.  Whenever the script reports an equilibrium lattice parameter \<open>a_eq\<close> (the
  reading loop ended normally with at least one energy), \<open>a_eq\<close> lies between the
  smallest and the largest lattice parameter extracted from the output files, both
  included, whatever coefficients the fit returned.
\<close>

theorem equilibrium_within_data_range:
  assumes "collect fs = Inr st" and "energies st \<noteq> []"
  shows "\<exists>f. fit_minimum polyfit (fst (sort_step (lattice_params st) (energies st)))
                (snd (sort_step (lattice_params st) (energies st))) = Inr f \<and>
             out_printed (analyze_results polyfit fs) =
               stdout st @ report_lines f @ closing_lines \<and>
             Min (set (lattice_params st)) \<le> a_eq f \<and>
             a_eq f \<le> Max (set (lattice_params st))"
proof -
  from run_fit_spec [OF assms, of polyfit] obtain f t i where f:
    "fit_minimum polyfit (fst (sort_step (lattice_params st) (energies st)))
       (snd (sort_step (lattice_params st) (energies st))) = Inr f"
    "analyze_results polyfit fs =
       \<lparr>out_printed = stdout st @ report_lines f @ closing_lines,
        out_status = Exit 0,
        out_written = [(''../assets/lattice_optimization.tex'', t)]\<rparr>"
    "a_fine f =
       linspace (Min (set (lattice_params st))) (Max (set (lattice_params st))) 1000"
    "i < 1000" "a_eq f = a_fine f ! i"
    by blast
  have "lattice_params st \<noteq> []"
    using collect_lengths [OF assms(1)] assms(2) by auto
  then have order: "Min (set (lattice_params st)) \<le> Max (set (lattice_params st))"
    by simp
  have "a_eq f \<in> set (a_fine f)"
    using f(3,4,5) by (simp add: length_linspace)
  then have "Min (set (lattice_params st)) \<le> a_eq f \<and> a_eq f \<le> Max (set (lattice_params st))"
    unfolding f(3) by (rule linspace_bounds [OF order])
  with f(1,2) show ?thesis
    by auto
qed

text \<open>Two files, for 2.2 and 2.4 Angstrom, and a fit that returns \<open>x\<^sup>2 - 5 x\<close>.\<close>

theorem equilibrium_within_data_range_witness:
  "collect [(''calculations/cu_a2.400.out'', ''! total energy = -2.0 Ry''),
            (''calculations/cu_a2.200.out'', ''! total energy = -1.5 Ry'')] =
     Inr \<lparr>lattice_params = [11 / 5, 12 / 5],
          energies = [- 3 / 2 * RY_TO_EV, - 2 * RY_TO_EV],
          stdout = [data_line (11 / 5) (- 3 / 2 * RY_TO_EV),
                    data_line (12 / 5) (- 2 * RY_TO_EV)]\<rparr> \<and>
   [- 3 / 2 * RY_TO_EV, - 2 * RY_TO_EV] \<noteq> [] \<and>
   (\<exists>f. fit_minimum (\<lambda>xs ys deg. [0, 0, 1, - 5, 0])
           (fst (sort_step [11 / 5, 12 / 5] [- 3 / 2 * RY_TO_EV, - 2 * RY_TO_EV]))
           (snd (sort_step [11 / 5, 12 / 5] [- 3 / 2 * RY_TO_EV, - 2 * RY_TO_EV])) = Inr f \<and>
        11 / 5 \<le> a_eq f \<and> a_eq f \<le> 12 / 5)"
proof -
  let ?fs = "[(''calculations/cu_a2.400.out'', ''! total energy = -2.0 Ry''),
              (''calculations/cu_a2.200.out'', ''! total energy = -1.5 Ry'')]"
  let ?st = "\<lparr>lattice_params = [11 / 5, 12 / 5],
              energies = [- 3 / 2 * RY_TO_EV, - 2 * RY_TO_EV],
              stdout = [data_line (11 / 5) (- 3 / 2 * RY_TO_EV),
                        data_line (12 / 5) (- 2 * RY_TO_EV)]\<rparr>"
  have run: "collect ?fs = Inr ?st"
    by code_simp
  have some: "energies ?st \<noteq> []"
    by simp
  have "Min (set (lattice_params ?st)) = 11 / 5" "Max (set (lattice_params ?st)) = 12 / 5"
    by simp_all
  with equilibrium_within_data_range [OF run some, of "\<lambda>xs ys deg. [0, 0, 1, - 5, 0]"]
  have "\<exists>f. fit_minimum (\<lambda>xs ys deg. [0, 0, 1, - 5, 0])
           (fst (sort_step [11 / 5, 12 / 5] [- 3 / 2 * RY_TO_EV, - 2 * RY_TO_EV]))
           (snd (sort_step [11 / 5, 12 / 5] [- 3 / 2 * RY_TO_EV, - 2 * RY_TO_EV])) = Inr f \<and>
        11 / 5 \<le> a_eq f \<and> a_eq f \<le> 12 / 5"
    by auto
  with run show ?thesis
    by simp
qed



subsection \<open>A run without energies\<close>

text \<open>
  Claim C9.  If the reading loop ends with an empty list of energies, the script prints
  \<^verbatim>\<open>No energies extracted. Check that calculations have completed.\<close> (and nothing
  else), exits with status 1 and writes no file.  No fit takes place: the outcome is the
  same whatever the fitting routine would do.
\<close>

theorem no_energies_exit:
  assumes "collect fs = Inr st" and "energies st = []"
  shows "analyze_results polyfit fs =
           \<lparr>out_printed = [''No energies extracted. Check that calculations have completed.''],
            out_status = Exit 1,
            out_written = []\<rparr> \<and>
         (\<forall>other_fit. analyze_results other_fit fs = analyze_results polyfit fs)"
proof -
  have "stdout st = []"
    using collect_lengths [OF assms(1)] assms(2) by simp
  then have "analyze_results pf fs =
           \<lparr>out_printed = [''No energies extracted. Check that calculations have completed.''],
            out_status = Exit 1,
            out_written = []\<rparr>" for pf
    using assms by (simp add: analyze_results_def)
  then show ?thesis
    by simp
qed

text \<open>A directory with one output file of a calculation that did not finish.\<close>

theorem no_energies_exit_witness:
  "collect [(''calculations/cu_a2.200.in'', ''&CONTROL''),
            (''calculations/cu_a2.200.out'', ''     Program PWSCF starts'')] =
     Inr \<lparr>lattice_params = [], energies = [], stdout = []\<rparr> \<and>
   out_status
     (analyze_results (\<lambda>xs ys deg. [])
        [(''calculations/cu_a2.200.in'', ''&CONTROL''),
         (''calculations/cu_a2.200.out'', ''     Program PWSCF starts'')]) = Exit 1 \<and>
   out_written
     (analyze_results (\<lambda>xs ys deg. [])
        [(''calculations/cu_a2.200.in'', ''&CONTROL''),
         (''calculations/cu_a2.200.out'', ''     Program PWSCF starts'')]) = []"
proof -
  let ?fs = "[(''calculations/cu_a2.200.in'', ''&CONTROL''),
              (''calculations/cu_a2.200.out'', ''     Program PWSCF starts'')]"
  let ?st = "\<lparr>lattice_params = [], energies = [], stdout = []\<rparr>"
  have run: "collect ?fs = Inr ?st"
    by code_simp
  have none: "energies ?st = []"
    by simp
  from no_energies_exit [OF run none, of "\<lambda>xs ys deg. []"] run show ?thesis
    by simp
qed

subsection \<open>Independence of the listing order\<close>

lemma sort_cong_mset:
  fixes xs ys :: "'a::linorder list"
  assumes "mset xs = mset ys"
  shows "sort xs = sort ys"
  by (rule properties_for_sort) (simp_all add: assms)

lemma output_files_listing_order:
  assumes "distinct (map fst fs1)" and "distinct (map fst fs2)" and "set fs1 = set fs2"
  shows "sort (glob_output_files fs1) = sort (glob_output_files fs2)"
proof -
  have "distinct fs1" "distinct fs2"
    using assms(1,2) by (simp_all add: distinct_map)
  with assms(3) have "mset fs1 = mset fs2"
    by (simp add: set_eq_iff_mset_eq_distinct)
  then have "mset (map fst fs1) = mset (map fst fs2)"
    by simp
  then have "mset (glob_output_files fs1) = mset (glob_output_files fs2)"
    by (simp add: glob_output_files_def)
  then show ?thesis
    by (rule sort_cong_mset)
qed

text \<open>
  Claim C7.  The analysis is a function of the set of files and their contents: two
  runs that see the same files with the same contents, in whatever order the operating
  system lists them, collect the same data and end with the same outcome (the same
  printed lines, among them the equilibrium values, the same exit status and the same
  TikZ file).  The fitting routine is the same function in both runs.
\<close>

theorem analysis_deterministic:
  assumes "distinct (map fst fs1)" and "distinct (map fst fs2)" and "set fs1 = set fs2"
  shows "collect fs1 = collect fs2 \<and>
         analyze_results polyfit fs1 = analyze_results polyfit fs2"
proof -
  have "map_of fs1 = map_of fs2"
    using assms by (simp add: map_of_inject_set)
  with output_files_listing_order [OF assms] have "collect fs1 = collect fs2"
    by (simp add: collect_def)
  then show ?thesis
    by (simp add: analyze_results_def)
qed

text \<open>The same two files, listed in either order.\<close>

theorem analysis_deterministic_witness:
  "distinct (map fst [(''calculations/cu_a2.400.out'', ''! total energy = -2.0 Ry''),
                      (''calculations/cu_a2.200.out'', ''! total energy = -1.5 Ry'')]) \<and>
   distinct (map fst [(''calculations/cu_a2.200.out'', ''! total energy = -1.5 Ry''),
                      (''calculations/cu_a2.400.out'', ''! total energy = -2.0 Ry'')]) \<and>
   set [(''calculations/cu_a2.400.out'', ''! total energy = -2.0 Ry''),
        (''calculations/cu_a2.200.out'', ''! total energy = -1.5 Ry'')] =
   set [(''calculations/cu_a2.200.out'', ''! total energy = -1.5 Ry''),
        (''calculations/cu_a2.400.out'', ''! total energy = -2.0 Ry'')] \<and>
   analyze_results (\<lambda>xs ys deg. [0, 0, 1, - 5, 0])
     [(''calculations/cu_a2.400.out'', ''! total energy = -2.0 Ry''),
      (''calculations/cu_a2.200.out'', ''! total energy = -1.5 Ry'')] =
   analyze_results (\<lambda>xs ys deg. [0, 0, 1, - 5, 0])
     [(''calculations/cu_a2.200.out'', ''! total energy = -1.5 Ry''),
      (''calculations/cu_a2.400.out'', ''! total energy = -2.0 Ry'')]"
proof -
  let ?fs1 = "[(''calculations/cu_a2.400.out'', ''! total energy = -2.0 Ry''),
               (''calculations/cu_a2.200.out'', ''! total energy = -1.5 Ry'')]"
  let ?fs2 = "[(''calculations/cu_a2.200.out'', ''! total energy = -1.5 Ry''),
               (''calculations/cu_a2.400.out'', ''! total energy = -2.0 Ry'')]"
  have d1: "distinct (map fst ?fs1)" and d2: "distinct (map fst ?fs2)"
    by simp_all
  have same: "set ?fs1 = set ?fs2"
    by auto
  from analysis_deterministic [OF d1 d2 same, of "\<lambda>xs ys deg. [0, 0, 1, - 5, 0]"] d1 d2 same
  show ?thesis
    by blast
qed

subsection \<open>The picture\<close>









end
